theory Spec2Isabelle
  imports Complex_Main "HOL-Library.Sublist"
begin

section \<open>The reel client: scripts/create-reel.js\<close>

text \<open>
  The script parses its command line, checks the source directory and the music file on
  the local file system, posts one job-creation request and then polls the job.  The
  model makes every input explicit: the argument vector, the file system, and the
  answers of the server.  Console output other than the reported error is left out.

  JavaScript strings are modelled as lists of 8-bit characters, read as the code points
  U+0000 to U+00FF.
\<close>

subsection \<open>Numbers, as \<open>Number.parseInt\<close> and \<open>Number.parseFloat\<close> produce them\<close>

text \<open>
  A finite number carries the exact mathematical value of the parsed literal.  The
  rounding of that value to a double is not modelled, nor is the overflow of a very large
  literal to \<open>Infinity\<close> or the underflow of a very small one to zero.  Whether the
  result is \<open>NaN\<close> depends on the syntax of the argument only.
\<close>

datatype jsnum = NaN | PosInfinity | NegInfinity | Finite rat

definition is_ws :: "char \<Rightarrow> bool" where
  "is_ws c = (let n = (of_char c :: nat)
              in n = 9 \<or> n = 10 \<or> n = 11 \<or> n = 12 \<or> n = 13 \<or> n = 32 \<or> n = 160)"

definition is_digit :: "char \<Rightarrow> bool" where
  "is_digit c = (48 \<le> (of_char c :: nat) \<and> (of_char c :: nat) \<le> 57)"

definition digit_val :: "char \<Rightarrow> nat" where
  "digit_val c = of_char c - 48"

definition digits_val :: "string \<Rightarrow> nat" where
  "digits_val ds = foldl (\<lambda>acc c. 10 * acc + digit_val c) 0 ds"

text \<open>A leading sign: whether it is a minus, and the text after it.\<close>

fun strip_sign :: "string \<Rightarrow> bool \<times> string" where
  "strip_sign [] = (False, [])"
| "strip_sign (c # cs) =
     (if c = CHR ''-'' then (True, cs)
      else if c = CHR ''+'' then (False, cs)
      else (False, c # cs))"

text \<open>\<open>ToString\<close> of an argument that may be \<open>undefined\<close>.\<close>

definition js_ToString :: "string option \<Rightarrow> string" where
  "js_ToString v = (case v of None \<Rightarrow> ''undefined'' | Some s \<Rightarrow> s)"

text \<open>
  \<open>Number.parseInt(next, 10)\<close>: leading white space is skipped, a sign is read, and the
  longest run of decimal digits gives the value; with no digit the result is \<open>NaN\<close>.
\<close>

definition parseInt10 :: "string option \<Rightarrow> jsnum" where
  "parseInt10 v =
     (let S = dropWhile is_ws (js_ToString v);
          sg = strip_sign S;
          Z = takeWhile is_digit (snd sg)
      in if Z = [] then NaN
         else Finite (if fst sg then - of_nat (digits_val Z) else of_nat (digits_val Z)))"

text \<open>
  \<open>Number.parseFloat(next)\<close>: the longest prefix of the trimmed text that is a
  \<open>StrDecimalLiteral\<close> (a sign, then \<open>Infinity\<close>, or digits with an optional fraction
  and an optional exponent); with no such prefix the result is \<open>NaN\<close>.
\<close>

definition scale10 :: "nat \<Rightarrow> int \<Rightarrow> rat" where
  "scale10 m e = (if 0 \<le> e then of_nat m * 10 ^ nat e else of_nat m / 10 ^ nat (- e))"

definition exponent_part :: "string \<Rightarrow> int" where
  "exponent_part r =
     (case r of
        [] \<Rightarrow> 0
      | c # cs \<Rightarrow>
          if c = CHR ''e'' \<or> c = CHR ''E'' then
            (let sg = strip_sign cs; ed = takeWhile is_digit (snd sg)
             in if ed = [] then 0
                else if fst sg then - int (digits_val ed) else int (digits_val ed))
          else 0)"

definition parseFloat :: "string option \<Rightarrow> jsnum" where
  "parseFloat v =
     (let S = dropWhile is_ws (js_ToString v);
          sg = strip_sign S;
          U = snd sg
      in if prefix ''Infinity'' U then (if fst sg then NegInfinity else PosInfinity)
         else
           (let ip = takeWhile is_digit U;
                r1 = dropWhile is_digit U;
                has_dot = (r1 \<noteq> [] \<and> hd r1 = CHR ''.'');
                fp = (if has_dot then takeWhile is_digit (tl r1) else []);
                r2 = (if has_dot then dropWhile is_digit (tl r1) else r1)
            in if ip = [] \<and> fp = [] then NaN
               else
                 (let q = scale10 (digits_val (ip @ fp)) (exponent_part r2 - int (length fp))
                  in Finite (if fst sg then - q else q))))"

subsection \<open>\<open>parseArgs\<close>\<close>

record args =
  directory :: "string option"
  musicPath :: "string option"
  maxFiles :: jsnum
  targetDurationSec :: jsnum
  minDurationSec :: jsnum
  maxDurationSec :: jsnum
  perSegmentSec :: jsnum
  server :: "string option"
  help_opt :: bool

definition default_args :: args where
  "default_args =
     \<lparr> directory = None, musicPath = None,
       maxFiles = Finite 20, targetDurationSec = Finite 30,
       minDurationSec = Finite 28, maxDurationSec = Finite 36,
       perSegmentSec = Finite 3,
       server = Some ''http://localhost:6741'', help_opt = False \<rparr>"

text \<open>\<open>argv[i]\<close>, which is \<open>undefined\<close> past the end of the array.\<close>

definition argv_at :: "string list \<Rightarrow> nat \<Rightarrow> string option" where
  "argv_at argv i = (if i < length argv then Some (argv ! i) else None)"

text \<open>
  The \<open>for\<close> loop of \<open>parseArgs\<close>.  An option that takes a value advances the index
  once more; an unknown argument is skipped with a warning.
\<close>

function parseArgs_loop :: "string list \<Rightarrow> nat \<Rightarrow> args \<Rightarrow> args" where
  "parseArgs_loop argv i a =
     (if i < length argv then
        (let key = argv ! i; nxt = argv_at argv (i + 1)
         in if key = ''--help'' \<or> key = ''-h'' then
              parseArgs_loop argv (i + 1) (a\<lparr>help_opt := True\<rparr>)
            else if key = ''--directory'' \<or> key = ''-d'' then
              parseArgs_loop argv (i + 2) (a\<lparr>directory := nxt\<rparr>)
            else if key = ''--musicPath'' \<or> key = ''-m'' then
              parseArgs_loop argv (i + 2) (a\<lparr>musicPath := nxt\<rparr>)
            else if key = ''--maxFiles'' then
              parseArgs_loop argv (i + 2) (a\<lparr>maxFiles := parseInt10 nxt\<rparr>)
            else if key = ''--targetDurationSec'' then
              parseArgs_loop argv (i + 2) (a\<lparr>targetDurationSec := parseFloat nxt\<rparr>)
            else if key = ''--minDurationSec'' then
              parseArgs_loop argv (i + 2) (a\<lparr>minDurationSec := parseFloat nxt\<rparr>)
            else if key = ''--maxDurationSec'' then
              parseArgs_loop argv (i + 2) (a\<lparr>maxDurationSec := parseFloat nxt\<rparr>)
            else if key = ''--perSegmentSec'' then
              parseArgs_loop argv (i + 2) (a\<lparr>perSegmentSec := parseFloat nxt\<rparr>)
            else if key = ''--server'' \<or> key = ''-s'' then
              parseArgs_loop argv (i + 2) (a\<lparr>server := nxt\<rparr>)
            else parseArgs_loop argv (i + 1) a)
      else a)"
  by pat_completeness auto
termination
  by (relation "measure (\<lambda>(argv, i, a). length argv - i)") auto

definition parseArgs :: "string list \<Rightarrow> args" where
  "parseArgs argv = parseArgs_loop argv 2 default_args"

subsection \<open>The file system and the source check\<close>

datatype dirent_kind = RegularFile | Directory | SymbolicLink | OtherKind

record dirent =
  name :: string
  kind :: dirent_kind

definition isFile :: "dirent \<Rightarrow> bool" where
  "isFile e = (kind e = RegularFile)"

text \<open>
  A path is absent, a directory with its entries, or something \<open>readdir\<close> fails on.
\<close>

datatype fsnode = DirNode "dirent list" | FileNode

type_synonym filesystem = "string \<Rightarrow> fsnode option"

definition pathExists :: "filesystem \<Rightarrow> string \<Rightarrow> bool" where
  "pathExists fs p = (fs p \<noteq> None)"

text \<open>
  \<open>String.prototype.toLowerCase\<close> on the code points below U+0100: the letters A to Z
  and the Latin-1 capitals U+00C0 to U+00DE (the multiplication sign U+00D7 apart) move
  up by 32.
\<close>

definition toLowerCase_char :: "char \<Rightarrow> char" where
  "toLowerCase_char c =
     (let n = (of_char c :: nat)
      in if (65 \<le> n \<and> n \<le> 90) \<or> (192 \<le> n \<and> n \<le> 222 \<and> n \<noteq> 215)
         then char_of (n + 32) else c)"

definition toLowerCase :: "string \<Rightarrow> string" where
  "toLowerCase s = map toLowerCase_char s"

text \<open>\<open>s.endsWith(t)\<close>: the last \<open>length t\<close> characters of \<open>s\<close> are \<open>t\<close>.\<close>

definition endsWith :: "string \<Rightarrow> string \<Rightarrow> bool" where
  "endsWith s t = (length t \<le> length s \<and> drop (length s - length t) s = t)"

definition is_mp4_entry :: "dirent \<Rightarrow> bool" where
  "is_mp4_entry e = (isFile e \<and> endsWith (toLowerCase (name e)) ''.mp4'')"

definition mp4Count :: "dirent list \<Rightarrow> nat" where
  "mp4Count entries = length (filter is_mp4_entry entries)"

datatype client_error =
    MissingRequiredArgs
  | DirectoryNotFound string
  | ReaddirFailed string
  | NeedTwoMp4 string nat
  | MusicFileNotFound string
  | CreateJobFailed
  | CreateJobHttpError
  | InvalidResponse
  | MissingJobId
  | JobEnded "string option"

definition requireDirectoryWithTwoMp4s :: "filesystem \<Rightarrow> string \<Rightarrow> client_error + unit" where
  "requireDirectoryWithTwoMp4s fs d =
     (if \<not> pathExists fs d then Inl (DirectoryNotFound d)
      else
        (case fs d of
           Some (DirNode entries) \<Rightarrow>
             (if mp4Count entries < 2 then Inl (NeedTwoMp4 d (mp4Count entries))
              else Inr ())
         | _ \<Rightarrow> Inl (ReaddirFailed d)))"

definition requireFile :: "filesystem \<Rightarrow> string \<Rightarrow> client_error + unit" where
  "requireFile fs p =
     (if \<not> pathExists fs p then Inl (MusicFileNotFound p) else Inr ())"

text \<open>
  The claim's words for an eligible name, spelled out character by character: the name
  ends with a dot, an \<open>m\<close> or \<open>M\<close>, a \<open>p\<close> or \<open>P\<close>, and a \<open>4\<close>.
\<close>

definition ends_with_mp4_ignoring_case :: "string \<Rightarrow> bool" where
  "ends_with_mp4_ignoring_case s =
     (case rev s of
        c4 # c3 # c2 # c1 # _ \<Rightarrow>
          c1 = CHR ''.'' \<and> (c2 = CHR ''m'' \<or> c2 = CHR ''M'') \<and>
          (c3 = CHR ''p'' \<or> c3 = CHR ''P'') \<and> c4 = CHR ''4''
      | _ \<Rightarrow> False)"

subsection \<open>The job-creation request and the answers of the server\<close>

text \<open>
  The request body is the JSON object \<open>JSON.stringify(body)\<close> denotes, member by member
  in insertion order.  \<open>JSON.stringify\<close> writes a number that is not finite as \<open>null\<close>.
\<close>

datatype json = JNull | JBool bool | JNumber rat | JString string

definition json_of_number :: "jsnum \<Rightarrow> json" where
  "json_of_number n = (case n of Finite q \<Rightarrow> JNumber q | _ \<Rightarrow> JNull)"

datatype http_request = POST string "(string \<times> json) list" | GET string

text \<open>
  What \<open>fetch\<close> and the reading of the response give for the job-creation request: the
  call throws, the response is not OK, its body is not JSON, or it is JSON whose
  \<open>job_id\<close> member is given (\<open>None\<close> when the value is falsy or has no such member).
\<close>

datatype create_resp = CreateThrows | CreateNotOk | CreateBadJson | CreateJson "string option"

text \<open>
  The parsed body of a poll: \<open>statusJson.status\<close> and \<open>statusJson.artifacts\<close>, each absent
  when the member is missing.
\<close>

record status_json =
  status :: "string option"
  artifacts :: "(string \<times> string) list option"

text \<open>
  What one poll gives.  \<open>PollJson None\<close> is a body that parses to a falsy value such as
  \<open>null\<close>.
\<close>

datatype poll_resp = PollThrows | PollNotOk | PollBadJson | PollJson "status_json option"

record server_env =
  create_job :: "string \<Rightarrow> (string \<times> json) list \<Rightarrow> create_resp"
  poll_job :: "string \<Rightarrow> nat \<Rightarrow> poll_resp"

text \<open>
  The truth value of a string that may be \<open>undefined\<close>: false when it is missing or
  empty.  Where such a value is written into a template literal, \<open>js_ToString\<close> gives
  its text.
\<close>

definition truthy :: "string option \<Rightarrow> bool" where
  "truthy v = (case v of None \<Rightarrow> False | Some s \<Rightarrow> s \<noteq> [])"

subsection \<open>The polling loop\<close>

text \<open>
  \<open>status === 'completed' || status === 'failed'\<close>, where \<open>status\<close> is
  \<open>statusJson && statusJson.status\<close>.
\<close>

definition status_of :: "status_json option \<Rightarrow> string option" where
  "status_of j = (case j of None \<Rightarrow> None | Some sj \<Rightarrow> status sj)"

definition is_terminal :: "status_json option \<Rightarrow> bool" where
  "is_terminal j = (status_of j = Some ''completed'' \<or> status_of j = Some ''failed'')"

text \<open>
  The state of the loop: the last body that parsed, the polls made so far, and the
  length in milliseconds of every \<open>sleep\<close> so far.
\<close>

record poll_state =
  statusJson :: "status_json option"
  polls :: nat
  sleeps :: "nat list"

definition init_poll_state :: poll_state where
  "init_poll_state = \<lparr> statusJson = None, polls = 0, sleeps = [] \<rparr>"

definition after_failed_poll :: "poll_state \<Rightarrow> poll_state" where
  "after_failed_poll st = st\<lparr> polls := polls st + 1, sleeps := sleeps st @ [1000] \<rparr>"

function poll_loop :: "(nat \<Rightarrow> poll_resp) \<Rightarrow> nat \<Rightarrow> poll_state \<Rightarrow> poll_state" where
  "poll_loop poll i st =
     (if i < 600 then
        (case poll i of
           PollThrows \<Rightarrow> poll_loop poll (i + 1) (after_failed_poll st)
         | PollNotOk \<Rightarrow> poll_loop poll (i + 1) (after_failed_poll st)
         | PollBadJson \<Rightarrow> poll_loop poll (i + 1) (after_failed_poll st)
         | PollJson j \<Rightarrow>
             (if is_terminal j then st\<lparr> statusJson := j, polls := polls st + 1 \<rparr>
              else poll_loop poll (i + 1)
                     (st\<lparr> statusJson := j, polls := polls st + 1,
                         sleeps := sleeps st @ [1000] \<rparr>)))
      else st)"
  by pat_completeness auto
termination
  by (relation "measure (\<lambda>(poll, i, st). 600 - i)") auto

subsection \<open>\<open>main\<close>\<close>

text \<open>
  One run of the script: the exit code, the error it reported, the requests it sent in
  order, the sleeps it made, and the URL it opened in the browser.
\<close>

record run =
  exit_code :: nat
  reported :: "client_error option"
  requests :: "http_request list"
  slept :: "nat list"
  opened :: "string option"

definition exit_with :: "nat \<Rightarrow> client_error option \<Rightarrow> http_request list \<Rightarrow> run" where
  "exit_with c e rs =
     \<lparr> exit_code = c, reported = e, requests = rs, slept = [], opened = None \<rparr>"

definition request_body :: "args \<Rightarrow> (string \<times> json) list" where
  "request_body a =
     [ (''directory'', JString (js_ToString (directory a))),
       (''mode'', JString ''montage''),
       (''target_duration_sec'', json_of_number (targetDurationSec a)),
       (''min_duration_sec'', json_of_number (minDurationSec a)),
       (''max_duration_sec'', json_of_number (maxDurationSec a)),
       (''per_segment_sec'', json_of_number (perSegmentSec a)),
       (''max_files'', json_of_number (maxFiles a)),
       (''aspect'', JString ''9:16''),
       (''music_url'', JString (js_ToString (musicPath a))),
       (''music_only'', JBool True),
       (''end_with_low'', JBool True) ]"

text \<open>\<open>statusJson?.artifacts?.best_reel_mp4\<close>\<close>

definition is_GET :: "http_request \<Rightarrow> bool" where
  "is_GET r = (case r of GET _ \<Rightarrow> True | POST _ _ \<Rightarrow> False)"

text \<open>
  Whether one poll reports a terminal status: the response is OK, its body parses, and
  the status is \<open>completed\<close> or \<open>failed\<close>.
\<close>

definition reports_terminal :: "poll_resp \<Rightarrow> bool" where
  "reports_terminal r = (case r of PollJson j \<Rightarrow> is_terminal j | _ \<Rightarrow> False)"

definition best_path :: "status_json option \<Rightarrow> string option" where
  "best_path j =
     (case j of
        None \<Rightarrow> None
      | Some sj \<Rightarrow> (case artifacts sj of None \<Rightarrow> None | Some m \<Rightarrow> map_of m ''best_reel_mp4''))"

text \<open>The part of \<open>main\<close> after the job id is known: the polling loop and the exit.\<close>

definition poll_and_exit :: "args \<Rightarrow> server_env \<Rightarrow> http_request \<Rightarrow> string \<Rightarrow> run" where
  "poll_and_exit a srv post jobId =
     (let url = js_ToString (server a) @ ''/api/reels/jobs/'' @ jobId;
          st = poll_loop (poll_job srv url) 0 init_poll_state;
          rs = post # replicate (polls st) (GET url)
      in if status_of (statusJson st) = Some ''completed'' then
           \<lparr> exit_code = 0, reported = None, requests = rs, slept = sleeps st,
             opened = Some (js_ToString (server a) @
                            (case best_path (statusJson st) of None \<Rightarrow> [] | Some p \<Rightarrow> p)) \<rparr>
         else
           \<lparr> exit_code = 1, reported = Some (JobEnded (status_of (statusJson st))),
             requests = rs, slept = sleeps st, opened = None \<rparr>)"

definition main :: "string list \<Rightarrow> filesystem \<Rightarrow> server_env \<Rightarrow> run" where
  "main argv fs srv =
     (let a = parseArgs argv
      in if help_opt a then exit_with 0 None []
         else if \<not> truthy (directory a) \<or> \<not> truthy (musicPath a) then
           exit_with 1 (Some MissingRequiredArgs) []
         else
           (case requireDirectoryWithTwoMp4s fs (js_ToString (directory a)) of
              Inl e \<Rightarrow> exit_with 1 (Some e) []
            | Inr _ \<Rightarrow>
                (case requireFile fs (js_ToString (musicPath a)) of
                   Inl e \<Rightarrow> exit_with 1 (Some e) []
                 | Inr _ \<Rightarrow>
                     (let url = js_ToString (server a) @ ''/api/reels/jobs'';
                          post = POST url (request_body a)
                      in case create_job srv url (request_body a) of
                           CreateThrows \<Rightarrow> exit_with 1 (Some CreateJobFailed) [post]
                         | CreateNotOk \<Rightarrow> exit_with 1 (Some CreateJobHttpError) [post]
                         | CreateBadJson \<Rightarrow> exit_with 1 (Some InvalidResponse) [post]
                         | CreateJson jid \<Rightarrow>
                             (if \<not> truthy jid then exit_with 1 (Some MissingJobId) [post]
                              else poll_and_exit a srv post (js_ToString jid))))))"

text \<open>
  The claim's words for a source that is not enough: the directory does not resolve to a
  directory that can be listed, or it lists fewer than two eligible clips.
\<close>

definition source_insufficient :: "filesystem \<Rightarrow> string \<Rightarrow> bool" where
  "source_insufficient fs d =
     (case fs d of
        None \<Rightarrow> True
      | Some FileNode \<Rightarrow> True
      | Some (DirNode entries) \<Rightarrow> mp4Count entries < 2)"

definition insufficient_sources_error :: "client_error \<Rightarrow> bool" where
  "insufficient_sources_error e =
     (case e of
        DirectoryNotFound _ \<Rightarrow> True
      | ReaddirFailed _ \<Rightarrow> True
      | NeedTwoMp4 _ n \<Rightarrow> n < 2
      | _ \<Rightarrow> False)"

subsection \<open>Concrete runs of the client\<close>

text \<open>
  A directory with one eligible clip (the other entries are a subdirectory whose name
  ends in \<open>.mp4\<close> and a file of another type), a directory with two, and a server that
  accepts the job and reports it completed on the first poll.
\<close>

definition fs_one_clip :: filesystem where
  "fs_one_clip p =
     (if p = ''clips'' then
        Some (DirNode [ \<lparr> name = ''a.mp4'', kind = RegularFile \<rparr>,
                        \<lparr> name = ''b.mp4'', kind = Directory \<rparr>,
                        \<lparr> name = ''c.mov'', kind = RegularFile \<rparr> ])
      else if p = ''song.mp3'' then Some FileNode
      else None)"

definition fs_two_clips :: filesystem where
  "fs_two_clips p =
     (if p = ''clips'' then
        Some (DirNode [ \<lparr> name = ''a.mp4'', kind = RegularFile \<rparr>,
                        \<lparr> name = ''B.MP4'', kind = RegularFile \<rparr> ])
      else if p = ''song.mp3'' then Some FileNode
      else None)"

definition server_accepts :: server_env where
  "server_accepts =
     \<lparr> create_job = (\<lambda>url body. CreateJson (Some ''job1'')),
       poll_job = (\<lambda>url i. PollJson (Some \<lparr> status = Some ''completed'',
                     artifacts = Some [(''best_reel_mp4'', ''/reels/job1/best.mp4'')] \<rparr>)) \<rparr>"

definition argv_plain :: "string list" where
  "argv_plain =
     [''node'', ''create-reel.js'', ''--directory'', ''clips'', ''--musicPath'', ''song.mp3'']"

definition argv_nan :: "string list" where
  "argv_nan = argv_plain @ [''--maxFiles'', ''abc'', ''--targetDurationSec'', ''fast'']"

section \<open>The assembly pipeline behind the client\<close>

text \<open>
  The server that validates a submission, plans the segments and runs the job
  (\<open>backend/backend.py\<close>) is not among the sources; only its client is.  The
  definitions of this section follow the words of the specification, section by section.
  Durations are exact rationals.  The time stamps of a job are left out.
\<close>

subsection \<open>Data model\<close>

text \<open>
  Modelled from the spec: the four values of a job's \<open>status\<close> (section 3); the
  backend's status type is missing.
\<close>

datatype job_status = Queued | Processing | Completed | Failed

text \<open>
  Modelled from the spec: the error taxonomy of section 7 (the backend's errors are
  missing), without the lookup error.
\<close>

datatype pipeline_error =
    ErrInsufficientSources
  | ErrMusicUnavailable
  | ErrInvalidDurationBounds
  | ErrInvalidSegmentLength
  | ErrInvalidFileCount
  | ErrUnsupportedAspect
  | ErrDurationUnreachable
  | ErrCollaborator string
  | ErrCancelled
  | ErrTimeout

text \<open>
  Modelled from the spec: the request fields of section 6 (the backend's request type is
  missing).  \<open>req_directory\<close> is the field \<open>directory\<close>.
\<close>

record request =
  req_directory :: string
  mode :: string
  target_duration_sec :: rat
  min_duration_sec :: rat
  max_duration_sec :: rat
  per_segment_sec :: rat
  max_files :: int
  aspect :: string
  music_url :: string
  music_only :: bool
  end_with_low :: bool

text \<open>
  Modelled from the spec: one eligible source clip as the planner sees it (the backend's
  clip enumeration is missing): its reference, its length in seconds, and whether the
  tag collaborator puts it in the low-energy subset.
\<close>

record clip =
  clip_ref :: string
  clip_length :: rat
  low_energy :: bool

text \<open>
  Modelled from the spec: the \<open>Segment\<close> of section 3 (the backend's type is missing).
\<close>

record segment =
  source_ref :: string
  trim_start :: rat
  trim_end :: rat
  order_index :: nat

text \<open>
  Modelled from the spec: the \<open>Job\<close> of section 3 (the backend's job record is missing),
  with the cancellation flag of section 4.4.  The fields carry the prefix \<open>job_\<close>;
  \<open>job_state\<close> is the field \<open>status\<close>.
\<close>

record job =
  job_id :: nat
  job_state :: job_status
  job_request :: request
  job_plan :: "segment list option"
  job_artifacts :: "(string \<times> string) list"
  job_error :: "pipeline_error option"
  cancel_requested :: bool

text \<open>
  Modelled from the spec: the collaborators the validator asks (they are external to the
  pipeline): the eligible clips a source reference resolves to, in enumeration order
  (\<open>None\<close> when it does not resolve), whether a music reference resolves, and the
  allowed aspect tokens.
\<close>

record world =
  listing :: "string \<Rightarrow> clip list option"
  music_resolves :: "string \<Rightarrow> bool"
  allowed_aspects :: "string list"

subsection \<open>Validator (section 4.1)\<close>

text \<open>
  Modelled from the spec: check 1 of the Validator, "source reference resolves to a
  location containing at least 2 eligible clips" (the backend's check is missing).
\<close>

definition sources_ok :: "world \<Rightarrow> request \<Rightarrow> bool" where
  "sources_ok w r =
     (case listing w (req_directory r) of None \<Rightarrow> False | Some cs \<Rightarrow> 2 \<le> length cs)"

text \<open>
  Modelled from the spec: check 3 of the Validator,
  \<open>0 < min_duration_sec \<le> target_duration_sec \<le> max_duration_sec\<close> (the backend's check
  is missing).
\<close>

definition duration_bounds_ok :: "request \<Rightarrow> bool" where
  "duration_bounds_ok r =
     (0 < min_duration_sec r \<and> min_duration_sec r \<le> target_duration_sec r \<and>
      target_duration_sec r \<le> max_duration_sec r)"

text \<open>
  Modelled from the spec: the Validator of section 4.1 (the backend's validation is
  missing): the six checks in the order given, failing on the first violation.
\<close>

definition validate :: "world \<Rightarrow> request \<Rightarrow> pipeline_error + unit" where
  "validate w r =
     (if \<not> sources_ok w r then Inl ErrInsufficientSources
      else if \<not> music_resolves w (music_url r) then Inl ErrMusicUnavailable
      else if \<not> duration_bounds_ok r then Inl ErrInvalidDurationBounds
      else if \<not> (0 < per_segment_sec r \<and> per_segment_sec r \<le> max_duration_sec r)
        then Inl ErrInvalidSegmentLength
      else if max_files r < 2 then Inl ErrInvalidFileCount
      else if aspect r \<notin> set (allowed_aspects w) then Inl ErrUnsupportedAspect
      else Inr ())"

subsection \<open>Segment planner (section 4.2)\<close>

text \<open>
  Modelled from the spec: the length \<open>trim_end - trim_start\<close> of a segment's window and
  the total planned duration, their sum over the plan (section 3; the backend's
  computation is missing).
\<close>

definition window_length :: "segment \<Rightarrow> rat" where
  "window_length s = trim_end s - trim_start s"

definition plan_total :: "segment list \<Rightarrow> rat" where
  "plan_total p = sum_list (map window_length p)"

text \<open>
  Modelled from the spec: step 1 of the planner (the backend's planner is missing).  The
  candidates are the clips in enumeration order, capped at \<open>max_files\<close>; with
  \<open>end_with_low\<close> set and a low-energy clip present, the first such clip takes the last
  slot and the other slots are filled in order from the remaining clips.
\<close>

definition candidates :: "request \<Rightarrow> clip list \<Rightarrow> clip list" where
  "candidates r clips =
     (let n = nat (max_files r)
      in if end_with_low r then
           (case filter low_energy clips of
              [] \<Rightarrow> take n clips
            | l # _ \<Rightarrow> take n (take (n - 1) (remove1 l clips) @ [l]))
         else take n clips)"

text \<open>
  Modelled from the spec: step 2, the window of length
  \<open>min(per_segment_sec, clip_length)\<close> around the midpoint of the clip.
\<close>

definition midpoint_segment :: "request \<Rightarrow> clip \<Rightarrow> nat \<Rightarrow> segment" where
  "midpoint_segment r c k =
     (let len = min (per_segment_sec r) (clip_length c)
      in \<lparr> source_ref = clip_ref c,
           trim_start = clip_length c / 2 - len / 2,
           trim_end = clip_length c / 2 + len / 2,
           order_index = k \<rparr>)"

text \<open>
  Modelled from the spec: steps 2 and 3, the greedy fill.  A candidate is appended while
  the running total is below the target and fewer than \<open>max_files\<close> segments are placed.
\<close>

fun fill :: "request \<Rightarrow> clip list \<Rightarrow> segment list \<Rightarrow> segment list" where
  "fill r [] acc = acc"
| "fill r (c # cs) acc =
     (if plan_total acc < target_duration_sec r \<and> int (length acc) < max_files r
      then fill r cs (acc @ [midpoint_segment r c (length acc)])
      else acc)"

text \<open>
  Modelled from the spec: step 4.  The window of the final segment is shortened at its
  end by the excess over \<open>max_duration_sec\<close>.
\<close>

definition trim_final :: "request \<Rightarrow> segment list \<Rightarrow> segment list" where
  "trim_final r p =
     (if max_duration_sec r < plan_total p \<and> p \<noteq> [] then
        butlast p @ [(last p)\<lparr> trim_end := trim_end (last p) -
                                    (plan_total p - max_duration_sec r) \<rparr>]
      else p)"

text \<open>
  Modelled from the spec: the Segment Planner of section 4.2, steps 1 to 5.
\<close>

definition plan_segments :: "request \<Rightarrow> clip list \<Rightarrow> pipeline_error + segment list" where
  "plan_segments r clips =
     (let p = trim_final r (fill r (candidates r clips) [])
      in if plan_total p < min_duration_sec r then Inl ErrDurationUnreachable else Inr p)"

subsection \<open>Job store and worker (sections 3, 4.3 and 4.4)\<close>

text \<open>
  Modelled from the spec: the job store (missing from the sources) as one record per job
  id, the id being the position in the list.  A submission that fails validation returns
  its error and leaves the store as it was; a valid one adds a queued job.
\<close>

definition new_job :: "nat \<Rightarrow> request \<Rightarrow> job" where
  "new_job i r =
     \<lparr> job_id = i, job_state = Queued, job_request = r, job_plan = None,
       job_artifacts = [], job_error = None, cancel_requested = False \<rparr>"

definition submit :: "world \<Rightarrow> request \<Rightarrow> job list \<Rightarrow> (pipeline_error + nat) \<times> job list" where
  "submit w r st =
     (case validate w r of
        Inl e \<Rightarrow> (Inl e, st)
      | Inr _ \<Rightarrow> (Inr (length st), st @ [new_job (length st) r]))"

text \<open>
  Modelled from the spec: the transition to \<open>failed\<close> with its structured error (section
  3; the backend's transition is missing).
\<close>

definition fail_job :: "pipeline_error \<Rightarrow> job \<Rightarrow> job" where
  "fail_job e j = j\<lparr> job_state := Failed, job_error := Some e \<rparr>"

text \<open>
  Modelled from the spec: the clips the planner enumerates for a job (the backend's
  enumeration is missing): those the source reference resolves to, none when it does not
  resolve.
\<close>

definition clips_of :: "world \<Rightarrow> string \<Rightarrow> clip list" where
  "clips_of w d = (case listing w d of None \<Rightarrow> [] | Some cs \<Rightarrow> cs)"

text \<open>
  Modelled from the spec: the stages a worker runs on the job it owns (section 4.4; the
  backend's worker is missing).  The outcome of the assembly is what the
  encode, mux and score collaborators give: a diagnostic message, or the path of the
  chosen candidate.
\<close>

datatype stage = PlanStage | AssembleStage "string + string" | TimeoutFired

text \<open>
  Modelled from the spec: one step of the worker on its job (sections 4.3 and 4.4; the
  backend's worker is missing).  Only a job in \<open>processing\<close> is touched.  A timeout fails
  the job; a set cancellation flag, checked before each stage, fails it as well.  Planning
  writes the plan once or fails the job with the planner's error; assembly needs the
  plan and either fails the job or records the best reel and completes it.
\<close>

definition worker_step :: "world \<Rightarrow> stage \<Rightarrow> job \<Rightarrow> job" where
  "worker_step w sg j =
     (if job_state j \<noteq> Processing then j
      else if sg = TimeoutFired then fail_job ErrTimeout j
      else if cancel_requested j then fail_job ErrCancelled j
      else
        (case sg of
           PlanStage \<Rightarrow>
             (case job_plan j of
                Some _ \<Rightarrow> j
              | None \<Rightarrow>
                  (case plan_segments (job_request j)
                          (clips_of w (req_directory (job_request j))) of
                     Inl e \<Rightarrow> fail_job e j
                   | Inr p \<Rightarrow> j\<lparr> job_plan := Some p \<rparr>))
         | AssembleStage out \<Rightarrow>
             (case job_plan j of
                None \<Rightarrow> j
              | Some _ \<Rightarrow>
                  (case out of
                     Inl msg \<Rightarrow> fail_job (ErrCollaborator msg) j
                   | Inr path \<Rightarrow>
                       j\<lparr> job_artifacts := (''best_reel_mp4'', path) # job_artifacts j,
                          job_state := Completed \<rparr>))
         | TimeoutFired \<Rightarrow> j))"

text \<open>
  Modelled from the spec: the scheduler takes the oldest queued job and puts it in
  \<open>processing\<close>.
\<close>

fun dequeue :: "job list \<Rightarrow> job list" where
  "dequeue [] = []"
| "dequeue (j # js) =
     (if job_state j = Queued then j\<lparr> job_state := Processing \<rparr> # js else j # dequeue js)"

text \<open>
  Modelled from the spec: what can happen to the store (the backend's entry points are
  missing): a submission, a worker taking the next queued job, a cancellation request for
  a job id, and a stage of the worker that owns a job id.  An event that names an id
  outside the store changes nothing.
\<close>

datatype event = Submit request | Dequeue | Cancel nat | Stage nat stage

definition on_job :: "nat \<Rightarrow> (job \<Rightarrow> job) \<Rightarrow> job list \<Rightarrow> job list" where
  "on_job i f st = (if i < length st then st[i := f (st ! i)] else st)"

fun apply_event :: "world \<Rightarrow> job list \<Rightarrow> event \<Rightarrow> job list" where
  "apply_event w st (Submit r) = snd (submit w r st)"
| "apply_event w st Dequeue = dequeue st"
| "apply_event w st (Cancel i) = on_job i (\<lambda>j. j\<lparr> cancel_requested := True \<rparr>) st"
| "apply_event w st (Stage i sg) = on_job i (worker_step w sg) st"

text \<open>
  Modelled from the spec: the store after a sequence of events, starting with no job.
\<close>

definition run_events :: "world \<Rightarrow> event list \<Rightarrow> job list" where
  "run_events w evs = foldl (apply_event w) [] evs"

text \<open>
  What holds of every job in the store at every moment: its request passed the duration
  check, a plan that is set lies within the duration budget, and a completed job has a
  plan.
\<close>

definition job_ok :: "job \<Rightarrow> bool" where
  "job_ok j =
     (duration_bounds_ok (job_request j) \<and>
      (case job_plan j of
         None \<Rightarrow> job_state j \<noteq> Completed
       | Some p \<Rightarrow>
           min_duration_sec (job_request j) \<le> plan_total p \<and>
           plan_total p \<le> max_duration_sec (job_request j)))"

subsection \<open>The example of section 8\<close>

text \<open>
  The request of the example, directories of \<open>n\<close> clips of 10 seconds each, and a world
  in which the directory \<open>clips5\<close> holds 5 of them and \<open>clips12\<close> holds 12.
\<close>

definition example_request :: "string \<Rightarrow> request" where
  "example_request d =
     \<lparr> req_directory = d, mode = ''montage'', target_duration_sec = 30,
       min_duration_sec = 28, max_duration_sec = 36, per_segment_sec = 3,
       max_files = 20, aspect = ''9:16'', music_url = ''song.mp3'',
       music_only = True, end_with_low = False \<rparr>"

definition ten_second_clips :: "nat \<Rightarrow> clip list" where
  "ten_second_clips n =
     map (\<lambda>k. \<lparr> clip_ref = replicate (Suc k) (CHR ''c''), clip_length = 10,
                low_energy = False \<rparr>) [0..<n]"

text \<open>A request whose minimum exceeds its maximum, on a directory that does not resolve.\<close>

definition inverted_request :: request where
  "inverted_request = (example_request ''nowhere'')\<lparr> min_duration_sec := 40 \<rparr>"

definition example_world :: world where
  "example_world =
     \<lparr> listing = (\<lambda>d. if d = ''clips5'' then Some (ten_second_clips 5)
                       else if d = ''clips12'' then Some (ten_second_clips 12)
                       else None),
       music_resolves = (\<lambda>m. m = ''song.mp3''),
       allowed_aspects = [''9:16'', ''1:1'', ''16:9''] \<rparr>"

text \<open>
  A run of the pipeline on the directory of 12 clips: submission, dequeue, planning, and
  an assembly whose collaborators succeed.
\<close>

definition example_events :: "event list" where
  "example_events =
     [ Submit (example_request ''clips12''), Dequeue, Stage 0 PlanStage,
       Stage 0 (AssembleStage (Inr ''/reels/0/best.mp4'')) ]"

section \<open>Properties of the client\<close>

lemma of_char_lower: "(of_char (toLowerCase_char c) :: nat) =
   (let n = (of_char c :: nat)
      in if (65 \<le> n \<and> n \<le> 90) \<or> (192 \<le> n \<and> n \<le> 222 \<and> n \<noteq> 215)
         then n + 32 else n)"
  by (auto simp: toLowerCase_char_def Let_def)

lemma lower_dot: "toLowerCase_char c = CHR ''.'' \<longleftrightarrow> c = CHR ''.''"
proof -
  have "toLowerCase_char c = CHR ''.'' \<longleftrightarrow> (of_char (toLowerCase_char c) :: nat) = of_char (CHR ''.'')"
    by (simp only: of_char_eq_iff)
  also have "\<dots> \<longleftrightarrow> (of_char c :: nat) = 46"
    by (auto simp: of_char_lower Let_def)
  also have "\<dots> \<longleftrightarrow> (of_char c :: nat) = of_char (CHR ''.'')"
    by simp
  also have "\<dots> \<longleftrightarrow> c = CHR ''.''"
    by (simp only: of_char_eq_iff)
  finally show ?thesis .
qed

lemma endsWith_iff: "endsWith s t \<longleftrightarrow> (\<exists>p. s = p @ t)"
proof
  assume h: "endsWith s t"
  have "s = take (length s - length t) s @ drop (length s - length t) s" by simp
  with h have "s = take (length s - length t) s @ t" by (simp add: endsWith_def)
  then show "\<exists>p. s = p @ t" ..
next
  assume "\<exists>p. s = p @ t"
  then show "endsWith s t" by (auto simp: endsWith_def)
qed

lemma rev_eq_4: "(\<exists>r. rev s = d # c # b # a # r) \<longleftrightarrow> (\<exists>p. s = p @ [a, b, c, d])"
proof
  assume "\<exists>r. rev s = d # c # b # a # r"
  then obtain r where "rev s = d # c # b # a # r" ..
  then have "rev (rev s) = rev (d # c # b # a # r)" by simp
  then have "s = rev r @ [a, b, c, d]" by simp
  then show "\<exists>p. s = p @ [a, b, c, d]" ..
next
  assume "\<exists>p. s = p @ [a, b, c, d]"
  then obtain p where "s = p @ [a, b, c, d]" ..
  then have "rev s = d # c # b # a # rev p" by simp
  then show "\<exists>r. rev s = d # c # b # a # r" ..
qed

lemma lower_char_eq:
  "toLowerCase_char c = d \<longleftrightarrow>
     (let n = (of_char c :: nat)
      in (if (65 \<le> n \<and> n \<le> 90) \<or> (192 \<le> n \<and> n \<le> 222 \<and> n \<noteq> 215)
          then n + 32 else n) = of_char d)"
proof -
  have "toLowerCase_char c = d \<longleftrightarrow> (of_char (toLowerCase_char c) :: nat) = of_char d"
    by (simp only: of_char_eq_iff)
  then show ?thesis by (simp add: of_char_lower Let_def)
qed

lemma nat_of_char_eq: "(of_char c :: nat) = of_char d \<longleftrightarrow> c = d"
  by (simp only: of_char_eq_iff)

lemma lower_4: "toLowerCase_char c = CHR ''4'' \<longleftrightarrow> c = CHR ''4''"
  using nat_of_char_eq [of c "CHR ''4''"] by (auto simp: lower_char_eq Let_def)

lemma lower_m: "toLowerCase_char c = CHR ''m'' \<longleftrightarrow> c = CHR ''m'' \<or> c = CHR ''M''"
  using nat_of_char_eq [of c "CHR ''m''"] nat_of_char_eq [of c "CHR ''M''"]
  by (auto simp: lower_char_eq Let_def)

lemma lower_p: "toLowerCase_char c = CHR ''p'' \<longleftrightarrow> c = CHR ''p'' \<or> c = CHR ''P''"
  using nat_of_char_eq [of c "CHR ''p''"] nat_of_char_eq [of c "CHR ''P''"]
  by (auto simp: lower_char_eq Let_def)

lemma ends_ci_iff:
  "ends_with_mp4_ignoring_case s \<longleftrightarrow>
     (\<exists>p c1 c2 c3 c4. s = p @ [c1, c2, c3, c4] \<and> c1 = CHR ''.'' \<and>
        (c2 = CHR ''m'' \<or> c2 = CHR ''M'') \<and> (c3 = CHR ''p'' \<or> c3 = CHR ''P'') \<and> c4 = CHR ''4'')"
  (is "?L \<longleftrightarrow> ?R")
proof
  assume ?L
  then obtain c4 c3 c2 c1 r where r: "rev s = c4 # c3 # c2 # c1 # r"
    and c: "c1 = CHR ''.'' \<and> (c2 = CHR ''m'' \<or> c2 = CHR ''M'') \<and>
          (c3 = CHR ''p'' \<or> c3 = CHR ''P'') \<and> c4 = CHR ''4''"
    by (auto simp: ends_with_mp4_ignoring_case_def split: list.splits)
  from r have "\<exists>p. s = p @ [c1, c2, c3, c4]" using rev_eq_4 [of s c4 c3 c2 c1] by blast
  with c show ?R by blast
next
  assume ?R
  then obtain p c1 c2 c3 c4 where s: "s = p @ [c1, c2, c3, c4]"
    and c: "c1 = CHR ''.'' \<and> (c2 = CHR ''m'' \<or> c2 = CHR ''M'') \<and>
          (c3 = CHR ''p'' \<or> c3 = CHR ''P'') \<and> c4 = CHR ''4''"
    by blast
  from s have "rev s = c4 # c3 # c2 # c1 # rev p" by simp
  with c show ?L by (simp add: ends_with_mp4_ignoring_case_def)
qed

lemma map_eq_append4:
  "map f s = p @ [a, b, c, d] \<longleftrightarrow>
     (\<exists>q w x y z. s = q @ [w, x, y, z] \<and> map f q = p \<and> f w = a \<and> f x = b \<and> f y = c \<and> f z = d)"
proof
  assume "map f s = p @ [a, b, c, d]"
  then show "\<exists>q w x y z. s = q @ [w, x, y, z] \<and> map f q = p \<and> f w = a \<and> f x = b \<and> f y = c \<and> f z = d"
    by (auto simp: map_eq_append_conv map_eq_Cons_conv)
next
  assume "\<exists>q w x y z. s = q @ [w, x, y, z] \<and> map f q = p \<and> f w = a \<and> f x = b \<and> f y = c \<and> f z = d"
  then show "map f s = p @ [a, b, c, d]" by auto
qed

lemma lower_ends_iff:
  "endsWith (toLowerCase s) ''.mp4'' \<longleftrightarrow> ends_with_mp4_ignoring_case s"
proof -
  have "endsWith (toLowerCase s) ''.mp4'' \<longleftrightarrow>
        (\<exists>p. map toLowerCase_char s = p @ [CHR ''.'', CHR ''m'', CHR ''p'', CHR ''4''])"
    by (simp add: endsWith_iff toLowerCase_def)
  also have "\<dots> \<longleftrightarrow> (\<exists>q w x y z. s = q @ [w, x, y, z] \<and> toLowerCase_char w = CHR ''.'' \<and>
        toLowerCase_char x = CHR ''m'' \<and> toLowerCase_char y = CHR ''p'' \<and> toLowerCase_char z = CHR ''4'')"
    unfolding map_eq_append4 by blast
  also have "\<dots> \<longleftrightarrow> ends_with_mp4_ignoring_case s"
    unfolding lower_dot lower_m lower_p lower_4 ends_ci_iff by blast
  finally show ?thesis .
qed

lemma is_mp4_entry_iff:
  "is_mp4_entry e \<longleftrightarrow> kind e = RegularFile \<and> ends_with_mp4_ignoring_case (name e)"
  by (simp add: is_mp4_entry_def isFile_def lower_ends_iff)

text \<open>
  Claim C9.  In the client's source check a directory entry counts as an eligible clip
  exactly when it is a regular file whose name ends, whatever the case of its letters,
  with \<open>.mp4\<close>; the count that is compared with 2 is the number of such entries, so a
  subdirectory or a file of another extension never adds to it.
\<close>

theorem eligible_clip_iff:
  "(is_mp4_entry e \<longleftrightarrow> kind e = RegularFile \<and> ends_with_mp4_ignoring_case (name e)) \<and>
   mp4Count entries =
     length (filter (\<lambda>e. kind e = RegularFile \<and> ends_with_mp4_ignoring_case (name e)) entries)"
proof -
  have "is_mp4_entry = (\<lambda>e. kind e = RegularFile \<and> ends_with_mp4_ignoring_case (name e))"
    by (rule ext) (rule is_mp4_entry_iff)
  then show ?thesis
    by (simp add: mp4Count_def is_mp4_entry_iff)
qed

lemma poll_loop_polls_le: "polls (poll_loop poll i st) \<le> polls st + (600 - i)"
proof (induction poll i st rule: poll_loop.induct)
  case (1 poll i st)
  show ?case
  proof (cases "i < 600")
    case False
    then show ?thesis by simp
  next
    case True
    show ?thesis
    proof (cases "poll i")
      case PollThrows
      with True "1.IH"(1) show ?thesis by (simp add: after_failed_poll_def)
    next
      case PollNotOk
      with True "1.IH"(2) show ?thesis by (simp add: after_failed_poll_def)
    next
      case PollBadJson
      with True "1.IH"(3) show ?thesis by (simp add: after_failed_poll_def)
    next
      case (PollJson j)
      with True "1.IH"(4) show ?thesis by (cases "is_terminal j") simp_all
    qed
  qed
qed

lemma poll_loop_sleeps_1000:
  "set (sleeps (poll_loop poll i st)) \<subseteq> set (sleeps st) \<union> {1000}"
proof (induction poll i st rule: poll_loop.induct)
  case (1 poll i st)
  show ?case
  proof (cases "i < 600")
    case False
    then show ?thesis by auto
  next
    case True
    show ?thesis
    proof (cases "poll i")
      case PollThrows
      with True "1.IH"(1) show ?thesis by (auto simp: after_failed_poll_def)
    next
      case PollNotOk
      with True "1.IH"(2) show ?thesis by (auto simp: after_failed_poll_def)
    next
      case PollBadJson
      with True "1.IH"(3) show ?thesis by (auto simp: after_failed_poll_def)
    next
      case (PollJson j)
      with True "1.IH"(4) show ?thesis by (cases "is_terminal j") auto
    qed
  qed
qed

lemma poll_loop_step_nonterminal:
  assumes "i < 600" and "\<not> reports_terminal (poll i)"
  shows "\<exists>j. poll_loop poll i st =
           poll_loop poll (i + 1) (st\<lparr> statusJson := j, polls := polls st + 1,
                                     sleeps := sleeps st @ [1000] \<rparr>)"
proof (cases "poll i")
  case (PollJson j)
  with assms have "\<not> is_terminal j" by (simp add: reports_terminal_def)
  with PollJson assms(1) show ?thesis by auto
next
  case PollThrows
  with assms(1) have "poll_loop poll i st = poll_loop poll (i + 1)
     (st\<lparr> statusJson := statusJson st, polls := polls st + 1, sleeps := sleeps st @ [1000] \<rparr>)"
    by (simp add: after_failed_poll_def)
  then show ?thesis ..
next
  case PollNotOk
  with assms(1) have "poll_loop poll i st = poll_loop poll (i + 1)
     (st\<lparr> statusJson := statusJson st, polls := polls st + 1, sleeps := sleeps st @ [1000] \<rparr>)"
    by (simp add: after_failed_poll_def)
  then show ?thesis ..
next
  case PollBadJson
  with assms(1) have "poll_loop poll i st = poll_loop poll (i + 1)
     (st\<lparr> statusJson := statusJson st, polls := polls st + 1, sleeps := sleeps st @ [1000] \<rparr>)"
    by (simp add: after_failed_poll_def)
  then show ?thesis ..
qed

lemma poll_loop_breaks_at:
  assumes "k < 600" and "poll k = PollJson j" and "is_terminal j"
  shows "i \<le> k \<Longrightarrow> (\<forall>m. i \<le> m \<and> m < k \<longrightarrow> \<not> reports_terminal (poll m)) \<Longrightarrow>
         poll_loop poll i st =
           st\<lparr> statusJson := j, polls := polls st + (k - i + 1),
               sleeps := sleeps st @ replicate (k - i) 1000 \<rparr>"
proof (induction "k - i" arbitrary: i st)
  case 0
  then have "i = k" by simp
  with assms show ?case by simp
next
  case (Suc n)
  then have lt: "i < k" and nt: "\<not> reports_terminal (poll i)" by auto
  with assms(1) have "i < 600" by simp
  from poll_loop_step_nonterminal [of i poll st, OF this nt] obtain j' where
    step: "poll_loop poll i st =
           poll_loop poll (i + 1) (st\<lparr> statusJson := j', polls := polls st + 1,
                                     sleeps := sleeps st @ [1000] \<rparr>)" ..
  have "n = k - (i + 1)" using Suc.hyps(2) by simp
  moreover have "i + 1 \<le> k" using lt by simp
  moreover have "\<forall>m. i + 1 \<le> m \<and> m < k \<longrightarrow> \<not> reports_terminal (poll m)"
    using Suc.prems(2) by simp
  ultimately have "poll_loop poll (i + 1) (st\<lparr> statusJson := j', polls := polls st + 1,
                                     sleeps := sleeps st @ [1000] \<rparr>) =
     (st\<lparr> statusJson := j', polls := polls st + 1, sleeps := sleeps st @ [1000] \<rparr>)
       \<lparr> statusJson := j,
         polls := polls (st\<lparr> statusJson := j', polls := polls st + 1, sleeps := sleeps st @ [1000] \<rparr>) + (k - (i + 1) + 1),
         sleeps := sleeps (st\<lparr> statusJson := j', polls := polls st + 1, sleeps := sleeps st @ [1000] \<rparr>) @ replicate (k - (i + 1)) 1000 \<rparr>"
    by (rule Suc.hyps(1))
  moreover have "replicate (k - i) (1000::nat) = 1000 # replicate (k - (i + 1)) 1000"
    using lt by (cases "k - i") simp_all
  ultimately show ?case using step lt by simp
qed

lemma poll_loop_exhausts:
  "i \<le> 600 \<Longrightarrow> (\<forall>m. i \<le> m \<and> m < 600 \<longrightarrow> \<not> reports_terminal (poll m)) \<Longrightarrow>
     polls (poll_loop poll i st) = polls st + (600 - i) \<and>
     sleeps (poll_loop poll i st) = sleeps st @ replicate (600 - i) 1000"
proof (induction "600 - i" arbitrary: i st)
  case 0
  then have "i = 600" by simp
  then show ?case by simp
next
  case (Suc n)
  then have lt: "i < 600" and nt: "\<not> reports_terminal (poll i)" by auto
  from poll_loop_step_nonterminal [of i poll st, OF lt nt] obtain j' where
    step: "poll_loop poll i st =
           poll_loop poll (i + 1) (st\<lparr> statusJson := j', polls := polls st + 1,
                                     sleeps := sleeps st @ [1000] \<rparr>)" ..
  have "n = 600 - (i + 1)" using Suc.hyps(2) by simp
  moreover have "i + 1 \<le> 600" using lt by simp
  moreover have "\<forall>m. i + 1 \<le> m \<and> m < 600 \<longrightarrow> \<not> reports_terminal (poll m)"
    using Suc.prems(2) by simp
  ultimately have ih: "polls (poll_loop poll (i + 1) (st\<lparr> statusJson := j', polls := polls st + 1,
                                     sleeps := sleeps st @ [1000] \<rparr>)) = polls st + 1 + (600 - (i + 1))
     \<and> sleeps (poll_loop poll (i + 1) (st\<lparr> statusJson := j', polls := polls st + 1,
                                     sleeps := sleeps st @ [1000] \<rparr>)) = (sleeps st @ [1000]) @ replicate (600 - (i + 1)) 1000"
    using Suc.hyps(1) [of "i + 1" "st\<lparr> statusJson := j', polls := polls st + 1, sleeps := sleeps st @ [1000] \<rparr>"]
    by simp
  have "replicate (600 - i) (1000::nat) = 1000 # replicate (600 - (i + 1)) 1000"
    using lt by (cases "600 - i") simp_all
  with ih step lt show ?case by simp
qed

lemma poll_and_exit_gets:
  "length (filter is_GET (requests (poll_and_exit a srv (POST u b) jobId))) \<le> 600"
proof -
  have "polls (poll_loop (poll_job srv (js_ToString (server a) @ ''/api/reels/jobs/'' @ jobId)) 0 init_poll_state) \<le> 600"
    using poll_loop_polls_le [of _ 0 init_poll_state] by (simp add: init_poll_state_def)
  then show ?thesis
    by (simp add: poll_and_exit_def Let_def is_GET_def)
qed

lemma main_gets: "length (filter is_GET (requests (main argv fs srv))) \<le> 600"
  by (simp add: main_def Let_def exit_with_def is_GET_def poll_and_exit_gets
           split: sum.splits create_resp.splits)

text \<open>
  Claim C8.  The polling loop terminates (\<open>poll_loop\<close> is a total function): it makes at
  most 600 polls, every sleep between polls lasts 1000 milliseconds, and it stops at the
  first poll that reports \<open>completed\<close> or \<open>failed\<close>, after exactly that many polls.
  Polls that throw, that are not OK or whose body does not parse count as attempts and
  are followed by the next poll; when no poll reports a terminal status the loop ends
  after 600 polls.  The whole run of \<open>main\<close> sends at most 600 poll requests.
\<close>

theorem polling_loop_bounded:
  "polls (poll_loop poll 0 init_poll_state) \<le> 600 \<and>
   (\<forall>ms \<in> set (sleeps (poll_loop poll 0 init_poll_state)). ms = 1000) \<and>
   (\<forall>k j. k < 600 \<and> poll k = PollJson j \<and> is_terminal j \<and>
           (\<forall>m<k. \<not> reports_terminal (poll m)) \<longrightarrow>
      poll_loop poll 0 init_poll_state =
        \<lparr> statusJson = j, polls = k + 1, sleeps = replicate k 1000 \<rparr>) \<and>
   ((\<forall>m<600. \<not> reports_terminal (poll m)) \<longrightarrow>
      polls (poll_loop poll 0 init_poll_state) = 600 \<and>
      sleeps (poll_loop poll 0 init_poll_state) = replicate 600 1000) \<and>
   length (filter is_GET (requests (main argv fs srv))) \<le> 600"
proof (intro conjI allI impI)
  show "polls (poll_loop poll 0 init_poll_state) \<le> 600"
    using poll_loop_polls_le [of poll 0 init_poll_state] by (simp add: init_poll_state_def)
next
  show "\<forall>ms \<in> set (sleeps (poll_loop poll 0 init_poll_state)). ms = 1000"
    using poll_loop_sleeps_1000 [of poll 0 init_poll_state] by (auto simp: init_poll_state_def)
next
  fix k j
  assume h: "k < 600 \<and> poll k = PollJson j \<and> is_terminal j \<and>
             (\<forall>m<k. \<not> reports_terminal (poll m))"
  then have k: "k < 600" "poll k = PollJson j" "is_terminal j" "0 \<le> k"
    and nt: "\<forall>m. 0 \<le> m \<and> m < k \<longrightarrow> \<not> reports_terminal (poll m)"
    by blast+
  have "poll_loop poll 0 init_poll_state =
      init_poll_state\<lparr> statusJson := j, polls := polls init_poll_state + (k - 0 + 1),
               sleeps := sleeps init_poll_state @ replicate (k - 0) 1000 \<rparr>"
    by (rule poll_loop_breaks_at [OF k(1,2,3,4) nt])
  then show "poll_loop poll 0 init_poll_state =
        \<lparr> statusJson = j, polls = k + 1, sleeps = replicate k 1000 \<rparr>"
    by (simp add: init_poll_state_def)
next
  assume h: "\<forall>m<600. \<not> reports_terminal (poll m)"
  have z: "polls init_poll_state = 0" "sleeps init_poll_state = []"
    by (simp_all add: init_poll_state_def)
  from h have nt: "\<forall>m. 0 \<le> m \<and> m < 600 \<longrightarrow> \<not> reports_terminal (poll m)"
    by blast
  have "(0::nat) \<le> 600" by simp
  then have "polls (poll_loop poll 0 init_poll_state) = polls init_poll_state + (600 - 0) \<and>
     sleeps (poll_loop poll 0 init_poll_state) = sleeps init_poll_state @ replicate (600 - 0) 1000"
    using nt by (rule poll_loop_exhausts)
  then show "polls (poll_loop poll 0 init_poll_state) = 600"
    and "sleeps (poll_loop poll 0 init_poll_state) = replicate 600 1000"
    by (simp_all only: z diff_zero add_0 append_Nil)
next
  show "length (filter is_GET (requests (main argv fs srv))) \<le> 600"
    by (rule main_gets)
qed

theorem polling_loop_bounded_witness:
  "poll_loop (\<lambda>i. if i = 0 then PollThrows else if i = 1 then PollNotOk
                   else PollJson (Some \<lparr> status = Some ''failed'', artifacts = None \<rparr>))
     0 init_poll_state =
   \<lparr> statusJson = Some \<lparr> status = Some ''failed'', artifacts = None \<rparr>,
     polls = 3, sleeps = [1000, 1000] \<rparr>"
proof -
  let ?p = "\<lambda>i::nat. if i = 0 then PollThrows else if i = 1 then PollNotOk
                   else PollJson (Some \<lparr> status = Some ''failed'', artifacts = None \<rparr>)"
  let ?j = "Some \<lparr> status = Some ''failed'', artifacts = None \<rparr>"
  have nt: "\<forall>m<2. \<not> reports_terminal (?p m)"
    by (simp add: reports_terminal_def)
  have tj: "is_terminal ?j"
    by (simp add: is_terminal_def status_of_def)
  have p2: "?p 2 = PollJson ?j"
    by simp
  have lt: "(2::nat) < 600"
    by simp
  have a: "(2::nat) < 600 \<and> ?p 2 = PollJson ?j \<and> is_terminal ?j \<and>
           (\<forall>m<2. \<not> reports_terminal (?p m))"
    using lt p2 tj nt by (intro conjI)
  have r: "poll_loop ?p 0 init_poll_state =
        \<lparr> statusJson = ?j, polls = 2 + 1, sleeps = replicate 2 1000 \<rparr>"
    by (rule polling_loop_bounded [of ?p, THEN conjunct2, THEN conjunct2, THEN conjunct1,
          rule_format, of 2 ?j, OF a])
  have e: "\<lparr> statusJson = ?j, polls = 2 + 1, sleeps = replicate 2 1000 \<rparr> =
           \<lparr> statusJson = ?j, polls = 3, sleeps = [1000, 1000] \<rparr>"
    by (simp add: numeral_2_eq_2)
  show ?thesis
    by (rule trans [OF r e])
qed

lemma requireDirectory_insufficient:
  "source_insufficient fs d \<Longrightarrow>
     \<exists>e. requireDirectoryWithTwoMp4s fs d = Inl e \<and> insufficient_sources_error e"
  by (auto simp: source_insufficient_def requireDirectoryWithTwoMp4s_def pathExists_def
        insufficient_sources_error_def split: option.splits fsnode.splits)

lemma requireDirectory_ok_iff:
  "requireDirectoryWithTwoMp4s fs d = Inr () \<longleftrightarrow> \<not> source_insufficient fs d"
  by (auto simp: source_insufficient_def requireDirectoryWithTwoMp4s_def pathExists_def
        split: option.splits fsnode.splits)

text \<open>
  Claim C3.  When the source directory does not resolve or lists fewer than two eligible
  clips, the client sends no request at all, so no job is created; unless help was asked
  for it exits with code 1, and when both required options are given the error it
  reports is the one of the source check (directory not found, not listable, or fewer
  than two clips).
\<close>

theorem insufficient_sources_rejected:
  assumes "source_insufficient fs (js_ToString (directory (parseArgs argv)))"
  shows "requests (main argv fs srv) = [] \<and>
         (\<not> help_opt (parseArgs argv) \<longrightarrow> exit_code (main argv fs srv) = 1) \<and>
         (\<not> help_opt (parseArgs argv) \<and> truthy (directory (parseArgs argv)) \<and>
          truthy (musicPath (parseArgs argv)) \<longrightarrow>
            (\<exists>e. reported (main argv fs srv) = Some e \<and> insufficient_sources_error e))"
proof -
  from requireDirectory_insufficient [OF assms] obtain e where
    e: "requireDirectoryWithTwoMp4s fs (js_ToString (directory (parseArgs argv))) = Inl e"
       "insufficient_sources_error e" by blast
  then show ?thesis
    by (simp add: main_def Let_def exit_with_def)
qed

lemma main_posts:
  assumes "\<not> help_opt (parseArgs argv)"
    and "truthy (directory (parseArgs argv))"
    and "truthy (musicPath (parseArgs argv))"
    and "\<not> source_insufficient fs (js_ToString (directory (parseArgs argv)))"
    and "pathExists fs (js_ToString (musicPath (parseArgs argv)))"
  shows "\<exists>rest. requests (main argv fs srv) =
           POST (js_ToString (server (parseArgs argv)) @ ''/api/reels/jobs'')
                (request_body (parseArgs argv)) # rest"
proof -
  have d: "requireDirectoryWithTwoMp4s fs (js_ToString (directory (parseArgs argv))) = Inr ()"
    using assms(4) by (simp add: requireDirectory_ok_iff)
  have m: "requireFile fs (js_ToString (musicPath (parseArgs argv))) = Inr ()"
    using assms(5) by (simp add: requireFile_def)
  show ?thesis
    using assms(1-3) d m
    by (simp add: main_def Let_def exit_with_def poll_and_exit_def split: create_resp.splits)
qed

lemma json_of_number_NaN: "json_of_number NaN = JNull"
  by (simp add: json_of_number_def)

lemma non_numeric_parses_to_NaN:
  assumes "\<not> is_ws c" and "\<not> is_digit c"
    and "c \<noteq> CHR ''+''" and "c \<noteq> CHR ''-''" and "c \<noteq> CHR ''.''" and "c \<noteq> CHR ''I''"
  shows "parseInt10 (Some (c # cs)) = NaN \<and> parseFloat (Some (c # cs)) = NaN"
  using assms
  by (simp add: parseInt10_def parseFloat_def js_ToString_def Let_def)

text \<open>
  Claim C10.  A numeric option whose value does not parse becomes \<open>NaN\<close>: so does every
  value whose first character is neither white space, a digit, a sign, a dot nor the
  \<open>I\<close> of \<open>Infinity\<close>.  The client checks only the directory and the music file, so
  the job-creation request is sent all the same, and each numeric member whose option is
  \<open>NaN\<close> is \<open>null\<close> in its body.  The run on \<open>argv_nan\<close> below is such a command line:
  \<open>--maxFiles abc\<close> and \<open>--targetDurationSec fast\<close>.
\<close>

theorem nan_option_posted_as_null:
  assumes "\<not> help_opt (parseArgs argv)"
    and "truthy (directory (parseArgs argv))"
    and "truthy (musicPath (parseArgs argv))"
    and "\<not> source_insufficient fs (js_ToString (directory (parseArgs argv)))"
    and "pathExists fs (js_ToString (musicPath (parseArgs argv)))"
  shows "(\<exists>rest. requests (main argv fs srv) =
            POST (js_ToString (server (parseArgs argv)) @ ''/api/reels/jobs'')
                 (request_body (parseArgs argv)) # rest) \<and>
         (maxFiles (parseArgs argv) = NaN \<longrightarrow>
            map_of (request_body (parseArgs argv)) ''max_files'' = Some JNull) \<and>
         (targetDurationSec (parseArgs argv) = NaN \<longrightarrow>
            map_of (request_body (parseArgs argv)) ''target_duration_sec'' = Some JNull) \<and>
         (minDurationSec (parseArgs argv) = NaN \<longrightarrow>
            map_of (request_body (parseArgs argv)) ''min_duration_sec'' = Some JNull) \<and>
         (maxDurationSec (parseArgs argv) = NaN \<longrightarrow>
            map_of (request_body (parseArgs argv)) ''max_duration_sec'' = Some JNull) \<and>
         (perSegmentSec (parseArgs argv) = NaN \<longrightarrow>
            map_of (request_body (parseArgs argv)) ''per_segment_sec'' = Some JNull) \<and>
         (\<forall>c cs. \<not> is_ws c \<and> \<not> is_digit c \<and> c \<noteq> CHR ''+'' \<and> c \<noteq> CHR ''-'' \<and>
                 c \<noteq> CHR ''.'' \<and> c \<noteq> CHR ''I'' \<longrightarrow>
            parseInt10 (Some (c # cs)) = NaN \<and> parseFloat (Some (c # cs)) = NaN)"
proof (intro conjI impI)
  show "\<forall>c cs. \<not> is_ws c \<and> \<not> is_digit c \<and> c \<noteq> CHR ''+'' \<and> c \<noteq> CHR ''-'' \<and>
                 c \<noteq> CHR ''.'' \<and> c \<noteq> CHR ''I'' \<longrightarrow>
            parseInt10 (Some (c # cs)) = NaN \<and> parseFloat (Some (c # cs)) = NaN"
    using non_numeric_parses_to_NaN by blast
next
  show "\<exists>rest. requests (main argv fs srv) =
            POST (js_ToString (server (parseArgs argv)) @ ''/api/reels/jobs'')
                 (request_body (parseArgs argv)) # rest"
    using assms by (rule main_posts)
qed (simp_all add: request_body_def json_of_number_NaN)


theorem insufficient_sources_rejected_witness:
  "source_insufficient fs_one_clip (js_ToString (directory (parseArgs argv_plain))) \<and>
   requests (main argv_plain fs_one_clip server_accepts) = [] \<and>
   exit_code (main argv_plain fs_one_clip server_accepts) = 1 \<and>
   (\<exists>e. reported (main argv_plain fs_one_clip server_accepts) = Some e \<and>
        insufficient_sources_error e)"
proof -
  have h: "source_insufficient fs_one_clip (js_ToString (directory (parseArgs argv_plain)))"
    by code_simp
  have a: "\<not> help_opt (parseArgs argv_plain)" "truthy (directory (parseArgs argv_plain))"
    "truthy (musicPath (parseArgs argv_plain))"
    by code_simp+
  from insufficient_sources_rejected [OF h, of server_accepts] a h show ?thesis
    by blast
qed

theorem nan_option_posted_as_null_witness:
  "maxFiles (parseArgs argv_nan) = NaN \<and> targetDurationSec (parseArgs argv_nan) = NaN \<and>
   (\<exists>rest. requests (main argv_nan fs_two_clips server_accepts) =
      POST ''http://localhost:6741/api/reels/jobs'' (request_body (parseArgs argv_nan)) # rest) \<and>
   map_of (request_body (parseArgs argv_nan)) ''max_files'' = Some JNull \<and>
   map_of (request_body (parseArgs argv_nan)) ''target_duration_sec'' = Some JNull"
proof -
  have a: "\<not> help_opt (parseArgs argv_nan)" "truthy (directory (parseArgs argv_nan))"
    "truthy (musicPath (parseArgs argv_nan))"
    "\<not> source_insufficient fs_two_clips (js_ToString (directory (parseArgs argv_nan)))"
    "pathExists fs_two_clips (js_ToString (musicPath (parseArgs argv_nan)))"
    by code_simp+
  have n: "maxFiles (parseArgs argv_nan) = NaN" "targetDurationSec (parseArgs argv_nan) = NaN"
    by code_simp+
  have u: "js_ToString (server (parseArgs argv_nan)) @ ''/api/reels/jobs'' =
           ''http://localhost:6741/api/reels/jobs''"
    by code_simp
  from nan_option_posted_as_null [OF a, of server_accepts] n u show ?thesis
    by simp
qed

section \<open>Properties of the pipeline model\<close>

lemma plan_total_snoc: "plan_total (p @ [s]) = plan_total p + window_length s"
  by (simp add: plan_total_def)

lemma window_length_midpoint:
  "window_length (midpoint_segment r c k) = min (per_segment_sec r) (clip_length c)"
  by (simp add: window_length_def midpoint_segment_def Let_def)

lemma plan_total_trim_final:
  "plan_total (trim_final r p) =
     (if max_duration_sec r < plan_total p \<and> p \<noteq> [] then max_duration_sec r else plan_total p)"
proof (cases "max_duration_sec r < plan_total p \<and> p \<noteq> []")
  case False
  then have "trim_final r p = p" by (auto simp: trim_final_def)
  with False show ?thesis by auto
next
  case True
  then have "p = butlast p @ [last p]" by simp
  then have "plan_total p = plan_total (butlast p) + window_length (last p)"
    using plan_total_snoc [of "butlast p" "last p"] by simp
  moreover have "plan_total (trim_final r p) =
      plan_total (butlast p) +
      window_length ((last p)\<lparr> trim_end := trim_end (last p) - (plan_total p - max_duration_sec r) \<rparr>)"
    using True by (simp add: trim_final_def plan_total_snoc)
  ultimately show ?thesis using True by (simp add: window_length_def)
qed

lemma plan_total_Nil: "plan_total [] = 0"
  by (simp add: plan_total_def)

lemma plan_segments_bounds:
  assumes "plan_segments r clips = Inr p" and "0 \<le> max_duration_sec r"
  shows "min_duration_sec r \<le> plan_total p \<and> plan_total p \<le> max_duration_sec r"
proof -
  let ?q = "fill r (candidates r clips) []"
  from assms(1) have p: "p = trim_final r ?q" and lo: "\<not> plan_total p < min_duration_sec r"
    by (auto simp: plan_segments_def Let_def split: if_splits)
  have "plan_total (trim_final r ?q) \<le> max_duration_sec r"
    using assms(2) by (cases "?q = []") (auto simp: plan_total_trim_final plan_total_Nil)
  with p lo show ?thesis by simp
qed

lemma plan_total_trim_final_le: "plan_total (trim_final r p) \<le> plan_total p"
  by (simp add: plan_total_trim_final)

lemma fill_total_le:
  "0 \<le> per_segment_sec r \<Longrightarrow>
     plan_total (fill r cs acc) \<le> plan_total acc + of_nat (length cs) * per_segment_sec r"
proof (induction cs arbitrary: acc)
  case Nil
  then show ?case by simp
next
  case (Cons c cs)
  have step: "plan_total (acc @ [midpoint_segment r c (length acc)]) \<le> plan_total acc + per_segment_sec r"
    by (simp add: plan_total_snoc window_length_midpoint)
  have nonneg: "0 \<le> of_nat (length cs) * per_segment_sec r"
    using Cons.prems by simp
  show ?case
  proof (cases "plan_total acc < target_duration_sec r \<and> int (length acc) < max_files r")
    case True
    then have "plan_total (fill r (c # cs) acc) \<le>
        plan_total (acc @ [midpoint_segment r c (length acc)]) + of_nat (length cs) * per_segment_sec r"
      using Cons.IH [OF Cons.prems] by simp
    with step show ?thesis by (simp add: algebra_simps)
  next
    case False
    then have "fill r (c # cs) acc = acc" by auto
    moreover have "0 \<le> of_nat (length (c # cs)) * per_segment_sec r"
      using Cons.prems by simp
    ultimately show ?thesis by simp
  qed
qed

lemma candidates_length_le: "length (candidates r clips) \<le> length clips"
proof (cases "end_with_low r")
  case False
  then show ?thesis by (simp add: candidates_def Let_def)
next
  case True
  show ?thesis
  proof (cases "filter low_energy clips")
    case Nil
    with True show ?thesis by (simp add: candidates_def Let_def)
  next
    case (Cons l ls)
    then have "l \<in> set (filter low_energy clips)" by simp
    then have l: "l \<in> set clips" by simp
    then have "length (remove1 l clips) + 1 = length clips"
      by (simp add: length_remove1) (cases clips; simp)
    then have "length (take (nat (max_files r) - 1) (remove1 l clips) @ [l]) \<le> length clips"
      by simp
    moreover have "length (take (nat (max_files r)) (take (nat (max_files r) - 1) (remove1 l clips) @ [l]))
        \<le> length (take (nat (max_files r) - 1) (remove1 l clips) @ [l])"
      by (simp only: length_take min.cobounded1)
    ultimately have "length (take (nat (max_files r)) (take (nat (max_files r) - 1) (remove1 l clips) @ [l]))
        \<le> length clips"
      by (rule order_trans [rotated])
    moreover have "candidates r clips =
        take (nat (max_files r)) (take (nat (max_files r) - 1) (remove1 l clips) @ [l])"
      using True Cons by (simp add: candidates_def Let_def)
    ultimately show ?thesis by simp
  qed
qed

lemma too_few_clips_unreachable:
  assumes "0 < per_segment_sec r"
    and "int (length clips) < \<lceil>min_duration_sec r / per_segment_sec r\<rceil>"
  shows "plan_segments r clips = Inl ErrDurationUnreachable"
proof -
  let ?cs = "candidates r clips"
  have "plan_total (trim_final r (fill r ?cs [])) \<le> plan_total (fill r ?cs [])"
    by (rule plan_total_trim_final_le)
  also have "\<dots> \<le> of_nat (length ?cs) * per_segment_sec r"
    using fill_total_le [of r ?cs "[]"] assms(1) by (simp add: plan_total_Nil)
  also have "\<dots> \<le> of_nat (length clips) * per_segment_sec r"
    using candidates_length_le [of r clips] assms(1) by (simp add: mult_right_mono)
  also have "\<dots> < min_duration_sec r"
  proof -
    from assms(2) have "of_int (int (length clips)) < min_duration_sec r / per_segment_sec r"
      by (simp only: less_ceiling_iff)
    then show ?thesis using assms(1) by (simp add: pos_less_divide_eq)
  qed
  finally show ?thesis by (simp add: plan_segments_def Let_def)
qed

lemma validate_ok_bounds: "validate w r = Inr u \<Longrightarrow> duration_bounds_ok r"
  by (auto simp: validate_def split: if_splits)

lemma worker_step_ok:
  assumes "job_ok j"
  shows "job_ok (worker_step w sg j)"
proof -
  from assms have m: "0 \<le> max_duration_sec (job_request j)"
    by (simp add: job_ok_def duration_bounds_ok_def)
  have pl: "\<And>p. plan_segments (job_request j) (clips_of w (req_directory (job_request j))) = Inr p \<Longrightarrow>
     min_duration_sec (job_request j) \<le> plan_total p \<and> plan_total p \<le> max_duration_sec (job_request j)"
    using plan_segments_bounds [OF _ m] by blast
  show ?thesis
    using assms pl
    by (auto simp: job_ok_def worker_step_def fail_job_def
             split: stage.splits option.splits sum.splits)
qed

lemma new_job_ok: "duration_bounds_ok r \<Longrightarrow> job_ok (new_job i r)"
  by (simp add: job_ok_def new_job_def)

lemma submit_ok:
  assumes "\<forall>j \<in> set st. job_ok j"
  shows "\<forall>j \<in> set (snd (submit w r st)). job_ok j"
proof (cases "validate w r")
  case (Inl e)
  with assms show ?thesis by (simp add: submit_def)
next
  case (Inr u)
  then have "job_ok (new_job (length st) r)"
    by (intro new_job_ok validate_ok_bounds)
  with assms Inr show ?thesis by (simp add: submit_def)
qed

lemma dequeue_ok: "\<forall>j \<in> set st. job_ok j \<Longrightarrow> \<forall>j \<in> set (dequeue st). job_ok j"
proof (induction st)
  case Nil
  then show ?case by simp
next
  case (Cons j js)
  have "job_state j = Queued \<Longrightarrow> job_ok j \<Longrightarrow> job_ok (j\<lparr> job_state := Processing \<rparr>)"
    by (auto simp: job_ok_def split: option.splits)
  with Cons show ?case by auto
qed

lemma on_job_ok:
  assumes "\<forall>j \<in> set st. job_ok j" and "\<And>j. job_ok j \<Longrightarrow> job_ok (f j)"
  shows "\<forall>j \<in> set (on_job i f st). job_ok j"
proof (cases "i < length st")
  case False
  with assms(1) show ?thesis by (simp add: on_job_def)
next
  case True
  then have "job_ok (f (st ! i))" using assms by simp
  moreover have "set (st[i := f (st ! i)]) \<subseteq> insert (f (st ! i)) (set st)"
    by (rule set_update_subset_insert)
  ultimately show ?thesis using assms(1) True by (auto simp: on_job_def)
qed

lemma cancel_ok: "job_ok j \<Longrightarrow> job_ok (j\<lparr> cancel_requested := True \<rparr>)"
  by (auto simp: job_ok_def split: option.splits)

lemma apply_event_ok:
  assumes "\<forall>j \<in> set st. job_ok j"
  shows "\<forall>j \<in> set (apply_event w st ev). job_ok j"
proof (cases ev)
  case (Submit r)
  with submit_ok [OF assms] show ?thesis by simp
next
  case Dequeue
  with dequeue_ok [OF assms] show ?thesis by simp
next
  case (Cancel i)
  with on_job_ok [OF assms cancel_ok] show ?thesis by simp
next
  case (Stage i sg)
  with on_job_ok [OF assms worker_step_ok] show ?thesis by simp
qed

lemma foldl_events_ok:
  "\<forall>j \<in> set st. job_ok j \<Longrightarrow> \<forall>j \<in> set (foldl (apply_event w) st evs). job_ok j"
proof (induction evs arbitrary: st)
  case Nil
  then show ?case by simp
next
  case (Cons ev evs)
  from apply_event_ok [OF Cons.prems] have "\<forall>j \<in> set (apply_event w st ev). job_ok j" .
  from Cons.IH [OF this] show ?case by simp
qed

lemma run_events_ok: "j \<in> set (run_events w evs) \<Longrightarrow> job_ok j"
  using foldl_events_ok [of "[]" w evs] by (simp add: run_events_def)

text \<open>
  Claim C1.  In every store the pipeline can reach from the empty store, by any sequence
  of submissions, dequeues, cancellations and worker stages, a job whose status is
  completed has a plan, and the sum of \<open>trim_end - trim_start\<close> over the segments of
  that plan lies between \<open>min_duration_sec\<close> and \<open>max_duration_sec\<close> of its request,
  both inclusive.
\<close>

theorem completed_job_within_budget:
  assumes "j \<in> set (run_events w evs)" and "job_state j = Completed"
  shows "\<exists>p. job_plan j = Some p \<and>
             plan_total p = (\<Sum>s \<leftarrow> p. trim_end s - trim_start s) \<and>
             min_duration_sec (job_request j) \<le> plan_total p \<and>
             plan_total p \<le> max_duration_sec (job_request j)"
proof -
  from assms(1) have "job_ok j" by (rule run_events_ok)
  moreover have "\<And>p. plan_total p = (\<Sum>s \<leftarrow> p. trim_end s - trim_start s)"
    by (simp add: plan_total_def window_length_def [abs_def])
  ultimately show ?thesis
    using assms(2) by (auto simp: job_ok_def split: option.splits)
qed

text \<open>
  Claim C4, as amended.  A submission whose duration fields violate
  \<open>0 < min_duration_sec \<le> target_duration_sec \<le> max_duration_sec\<close> always fails
  validation at once and leaves the store as it was, whatever the source holds.  The
  error is \<open>ErrInvalidDurationBounds\<close> when the source and the music checks pass; the
  checks run in order, so a source with fewer than two clips gives
  \<open>ErrInsufficientSources\<close> instead, and a source that passes with a music reference
  that does not resolve gives \<open>ErrMusicUnavailable\<close>.  The counterexample below is a
  request with \<open>min_duration_sec > max_duration_sec\<close> on a directory that does not
  resolve.
\<close>

theorem invalid_bounds_rejected:
  assumes "\<not> duration_bounds_ok r"
  shows "(\<exists>e. submit w r st = (Inl e, st)) \<and>
         (sources_ok w r \<and> music_resolves w (music_url r) \<longrightarrow>
            submit w r st = (Inl ErrInvalidDurationBounds, st)) \<and>
         (\<not> sources_ok w r \<longrightarrow> submit w r st = (Inl ErrInsufficientSources, st)) \<and>
         (sources_ok w r \<and> \<not> music_resolves w (music_url r) \<longrightarrow>
            submit w r st = (Inl ErrMusicUnavailable, st)) \<and>
         apply_event w st (Submit r) = st"
  using assms by (auto simp: submit_def validate_def)

theorem invalid_bounds_rejected_counterexample:
  "max_duration_sec inverted_request < min_duration_sec inverted_request \<and>
   \<not> duration_bounds_ok inverted_request \<and>
   submit example_world inverted_request [] = (Inl ErrInsufficientSources, []) \<and>
   fst (submit example_world inverted_request []) \<noteq> Inl ErrInvalidDurationBounds"
  by (simp add: inverted_request_def example_request_def example_world_def submit_def
        validate_def sources_ok_def duration_bounds_ok_def)

theorem invalid_bounds_rejected_witness:
  "\<not> duration_bounds_ok ((example_request ''clips5'')\<lparr> min_duration_sec := 40 \<rparr>) \<and>
   submit example_world ((example_request ''clips5'')\<lparr> min_duration_sec := 40 \<rparr>) [] =
     (Inl ErrInvalidDurationBounds, []) \<and>
   apply_event example_world [] (Submit ((example_request ''clips5'')\<lparr> min_duration_sec := 40 \<rparr>)) = []"
proof -
  let ?r = "(example_request ''clips5'')\<lparr> min_duration_sec := 40 \<rparr>"
  have h: "\<not> duration_bounds_ok ?r"
    by (simp add: example_request_def duration_bounds_ok_def)
  have s: "sources_ok example_world ?r \<and> music_resolves example_world (music_url ?r)"
    by (simp add: example_request_def example_world_def sources_ok_def ten_second_clips_def)
  from invalid_bounds_rejected [OF h, of example_world "[]"] h s show ?thesis
    by blast
qed

lemma candidates_subset: "set (candidates r clips) \<subseteq> set clips"
proof (cases "end_with_low r")
  case False
  then show ?thesis by (auto simp: candidates_def Let_def dest: in_set_takeD)
next
  case True
  show ?thesis
  proof (cases "filter low_energy clips")
    case Nil
    with True show ?thesis by (auto simp: candidates_def Let_def dest: in_set_takeD)
  next
    case (Cons l ls)
    then have "l \<in> set (filter low_energy clips)" by simp
    then have l: "l \<in> set clips" by simp
    have "set (take (nat (max_files r)) (take (nat (max_files r) - 1) (remove1 l clips) @ [l]))
          \<subseteq> set (take (nat (max_files r) - 1) (remove1 l clips) @ [l])"
      by (rule set_take_subset)
    also have "\<dots> \<subseteq> set clips"
      using l set_take_subset [of "nat (max_files r) - 1" "remove1 l clips"]
        set_remove1_subset [of l clips] by auto
    finally show ?thesis using True Cons by (simp add: candidates_def Let_def)
  qed
qed

lemma candidates_distinct:
  assumes "distinct clips"
  shows "distinct (candidates r clips)"
proof (cases "end_with_low r")
  case False
  with assms show ?thesis by (simp add: candidates_def Let_def)
next
  case True
  show ?thesis
  proof (cases "filter low_energy clips")
    case Nil
    with True assms show ?thesis by (simp add: candidates_def Let_def)
  next
    case (Cons l ls)
    have "distinct (remove1 l clips)" using assms by simp
    then have d: "distinct (take (nat (max_files r) - 1) (remove1 l clips))" by simp
    have "l \<notin> set (remove1 l clips)" using assms by simp
    then have "l \<notin> set (take (nat (max_files r) - 1) (remove1 l clips))"
      by (auto dest: in_set_takeD)
    with d have "distinct (take (nat (max_files r) - 1) (remove1 l clips) @ [l])" by simp
    then have "distinct (take (nat (max_files r)) (take (nat (max_files r) - 1) (remove1 l clips) @ [l]))"
      by (rule distinct_take)
    then show ?thesis using True Cons by (simp add: candidates_def Let_def)
  qed
qed

lemma min_suc_aux:
  "len \<noteq> 0 \<Longrightarrow> min (Suc (min (len - 1) (n - 1))) n = min n (len::nat)"
  by (cases n; cases len) simp_all

lemma candidates_length:
  "length (candidates r clips) = min (nat (max_files r)) (length clips)"
proof (cases "end_with_low r")
  case False
  then show ?thesis by (simp add: candidates_def Let_def min.commute)
next
  case True
  show ?thesis
  proof (cases "filter low_energy clips")
    case Nil
    with True show ?thesis by (simp add: candidates_def Let_def min.commute)
  next
    case (Cons l ls)
    then have "l \<in> set (filter low_energy clips)" by simp
    then have l: "l \<in> set clips" by simp
    then have "length clips \<noteq> 0" by auto
    with l have "length (remove1 l clips) = length clips - 1"
      by (simp add: length_remove1)
    then have "length (take (nat (max_files r) - 1) (remove1 l clips) @ [l]) =
               Suc (min (length clips - 1) (nat (max_files r) - 1))"
      by simp
    then have "length (take (nat (max_files r)) (take (nat (max_files r) - 1) (remove1 l clips) @ [l]))
               = min (Suc (min (length clips - 1) (nat (max_files r) - 1))) (nat (max_files r))"
      by (simp only: length_take)
    also have "\<dots> = min (nat (max_files r)) (length clips)"
      using \<open>length clips \<noteq> 0\<close> by (rule min_suc_aux)
    finally have "length (take (nat (max_files r)) (take (nat (max_files r) - 1) (remove1 l clips) @ [l]))
               = min (nat (max_files r)) (length clips)" .
    then show ?thesis using True Cons by (simp add: candidates_def Let_def)
  qed
qed

lemma fill_tens:
  assumes r: "target_duration_sec r = 30" "per_segment_sec r = 3" "max_files r = 20"
  shows "\<forall>c \<in> set cs. clip_length c = 10 \<Longrightarrow>
         plan_total acc = 3 * of_nat (length acc) \<Longrightarrow> length acc \<le> 10 \<Longrightarrow>
         \<forall>s \<in> set acc. window_length s = 3 \<Longrightarrow>
           length (fill r cs acc) = min 10 (length acc + length cs) \<and>
           plan_total (fill r cs acc) = 3 * of_nat (length (fill r cs acc)) \<and>
           map source_ref (fill r cs acc) =
             map source_ref acc @ map clip_ref (take (10 - length acc) cs) \<and>
           (\<forall>s \<in> set (fill r cs acc). window_length s = 3)"
proof (induction cs arbitrary: acc)
  case Nil
  then show ?case by simp
next
  case (Cons c cs)
  show ?case
  proof (cases "length acc < 10")
    case False
    with Cons.prems have len: "length acc = 10" by simp
    with Cons.prems(2) have "plan_total acc = 30" by simp
    with r have "fill r (c # cs) acc = acc" by simp
    with len Cons.prems show ?thesis by simp
  next
    case True
    let ?s = "midpoint_segment r c (length acc)"
    let ?acc = "acc @ [?s]"
    from Cons.prems(1) have c10: "clip_length c = 10" by simp
    have wl: "window_length ?s = 3"
      using r c10 by (simp add: window_length_midpoint)
    from True have "(of_nat (length acc) :: rat) < 10"
      by (metis of_nat_less_iff of_nat_numeral)
    then have lt: "plan_total acc < 30" using Cons.prems(2) by simp
    from True have "int (length acc) < 20" by simp
    with lt r have step: "fill r (c # cs) acc = fill r cs ?acc" by simp
    have a1: "\<forall>c \<in> set cs. clip_length c = 10" using Cons.prems(1) by simp
    have a2: "plan_total ?acc = 3 * of_nat (length ?acc)"
      using Cons.prems(2) wl by (simp add: plan_total_snoc algebra_simps)
    have a3: "length ?acc \<le> 10" using True by simp
    have a4: "\<forall>s \<in> set ?acc. window_length s = 3" using Cons.prems(4) wl by simp
    from Cons.IH [OF a1 a2 a3 a4]
    have ih: "length (fill r cs ?acc) = min 10 (length ?acc + length cs) \<and>
           plan_total (fill r cs ?acc) = 3 * of_nat (length (fill r cs ?acc)) \<and>
           map source_ref (fill r cs ?acc) =
             map source_ref ?acc @ map clip_ref (take (10 - length ?acc) cs) \<and>
           (\<forall>s \<in> set (fill r cs ?acc). window_length s = 3)" .
    have sr: "source_ref ?s = clip_ref c" by (simp add: midpoint_segment_def Let_def)
    have "10 - length acc = Suc (10 - length ?acc)" using True by simp
    then have tk: "take (10 - length acc) (c # cs) = c # take (10 - length ?acc) cs"
      by (simp only: take_Suc_Cons)
    from ih show ?thesis
      unfolding step tk using sr by simp
  qed
qed

lemma example_plan_ten:
  assumes r: "target_duration_sec r = 30" "min_duration_sec r = 28" "max_duration_sec r = 36"
      "per_segment_sec r = 3" "max_files r = 20"
    and len10: "\<forall>c \<in> set clips. clip_length c = 10"
    and dist: "distinct (map clip_ref clips)"
    and n: "10 \<le> length clips"
  shows "\<exists>p. plan_segments r clips = Inr p \<and> length p = 10 \<and>
             (\<forall>s \<in> set p. window_length s = 3) \<and> plan_total p = 30 \<and>
             distinct (map source_ref p) \<and> set (map source_ref p) \<subseteq> clip_ref ` set clips"
proof -
  let ?cs = "candidates r clips"
  let ?p = "fill r ?cs []"
  have sub: "set ?cs \<subseteq> set clips" by (rule candidates_subset)
  with len10 have c10: "\<forall>c \<in> set ?cs. clip_length c = 10" by blast
  from dist have dc: "distinct clips" and inj: "inj_on clip_ref (set clips)"
    by (simp_all add: distinct_map)
  have dcs: "distinct (map clip_ref ?cs)"
    using candidates_distinct [OF dc, of r] inj sub
    by (auto simp: distinct_map intro: inj_on_subset)
  have lcs: "10 \<le> length ?cs"
    using n r by (simp add: candidates_length)
  from fill_tens [OF r(1) r(4) r(5) c10, of "[]"]
  have f: "length ?p = min 10 (length ?cs) \<and>
           plan_total ?p = 3 * of_nat (length ?p) \<and>
           map source_ref ?p = map clip_ref (take 10 ?cs) \<and>
           (\<forall>s \<in> set ?p. window_length s = 3)"
    by (simp add: plan_total_Nil)
  with lcs have l: "length ?p = 10" by simp
  with f have t: "plan_total ?p = 30" by simp
  with r have tf: "trim_final r ?p = ?p" by (simp add: trim_final_def)
  with t r have ps: "plan_segments r clips = Inr ?p"
    by (simp add: plan_segments_def Let_def)
  have d: "distinct (map source_ref ?p)"
    using f dcs by (simp add: take_map [symmetric] distinct_take)
  have s: "set (map source_ref ?p) \<subseteq> clip_ref ` set clips"
    using f sub by (auto dest: in_set_takeD)
  from ps l f t d s show ?thesis by blast
qed

lemma planning_failure_is_job_failure:
  assumes "validate w r = Inr ()"
    and "plan_segments r (clips_of w (req_directory r)) = Inl e"
  shows "submit w r [] = (Inr 0, [new_job 0 r]) \<and>
         run_events w [Submit r, Dequeue, Stage 0 PlanStage] =
           [(new_job 0 r)\<lparr> job_state := Failed, job_error := Some e \<rparr>]"
  using assms
  by (simp add: run_events_def submit_def new_job_def on_job_def worker_step_def fail_job_def)

theorem completed_job_within_budget_witness:
  "hd (run_events example_world example_events) \<in> set (run_events example_world example_events) \<and>
   job_state (hd (run_events example_world example_events)) = Completed \<and>
   (\<exists>p. job_plan (hd (run_events example_world example_events)) = Some p \<and>
        28 \<le> plan_total p \<and> plan_total p \<le> 36)"
proof -
  let ?j = "hd (run_events example_world example_events)"
  have m: "?j \<in> set (run_events example_world example_events)"
    by code_simp
  have c: "job_state ?j = Completed"
    by code_simp
  have r: "min_duration_sec (job_request ?j) = 28" "max_duration_sec (job_request ?j) = 36"
    by code_simp+
  from completed_job_within_budget [OF m c] r m c show ?thesis
    by auto
qed

lemma example_ceiling: "\<lceil>(28::rat) / 3\<rceil> = 10"
  by (rule ceiling_unique) simp_all

text \<open>
  Claim C6.  For the request \<open>target = 30, min = 28, max = 36, per_segment = 3,
  max_files = 20\<close> over clips of 10 seconds each with distinct references: with at least
  10 clips the planner selects 10 segments of 3 seconds, 30 seconds in total, from 10
  distinct clips; with fewer than \<open>ceil(min_duration_sec / per_segment_sec) = 10\<close>
  clips, a directory of 5 among them, planning fails with \<open>ErrDurationUnreachable\<close>,
  and a request that passed validation then ends as a failed job carrying that error.
\<close>

theorem example_plan:
  assumes r: "target_duration_sec r = 30" "min_duration_sec r = 28" "max_duration_sec r = 36"
      "per_segment_sec r = 3" "max_files r = 20"
    and len10: "\<forall>c \<in> set clips. clip_length c = 10"
    and dist: "distinct (map clip_ref clips)"
  shows "\<lceil>min_duration_sec r / per_segment_sec r\<rceil> = 10 \<and>
         (10 \<le> length clips \<longrightarrow>
            (\<exists>p. plan_segments r clips = Inr p \<and> length p = 10 \<and>
                 (\<forall>s \<in> set p. window_length s = 3) \<and> plan_total p = 30 \<and>
                 distinct (map source_ref p) \<and>
                 set (map source_ref p) \<subseteq> clip_ref ` set clips)) \<and>
         (int (length clips) < \<lceil>min_duration_sec r / per_segment_sec r\<rceil> \<longrightarrow>
            plan_segments r clips = Inl ErrDurationUnreachable \<and>
            (validate w r = Inr () \<and> clips_of w (req_directory r) = clips \<longrightarrow>
               submit w r [] = (Inr 0, [new_job 0 r]) \<and>
               run_events w [Submit r, Dequeue, Stage 0 PlanStage] =
                 [(new_job 0 r)\<lparr> job_state := Failed,
                                  job_error := Some ErrDurationUnreachable \<rparr>]))"
proof (intro conjI impI)
  show "\<lceil>min_duration_sec r / per_segment_sec r\<rceil> = 10"
    using r by (simp add: example_ceiling)
next
  assume "10 \<le> length clips"
  with r len10 dist show "\<exists>p. plan_segments r clips = Inr p \<and> length p = 10 \<and>
                 (\<forall>s \<in> set p. window_length s = 3) \<and> plan_total p = 30 \<and>
                 distinct (map source_ref p) \<and>
                 set (map source_ref p) \<subseteq> clip_ref ` set clips"
    by (rule example_plan_ten)
next
  assume few: "int (length clips) < \<lceil>min_duration_sec r / per_segment_sec r\<rceil>"
  have pos: "0 < per_segment_sec r" using r by simp
  from pos few show un: "plan_segments r clips = Inl ErrDurationUnreachable"
    by (rule too_few_clips_unreachable)
  assume v: "validate w r = Inr () \<and> clips_of w (req_directory r) = clips"
  with un have "plan_segments r (clips_of w (req_directory r)) = Inl ErrDurationUnreachable"
    by simp
  with v have both: "submit w r [] = (Inr 0, [new_job 0 r]) \<and>
         run_events w [Submit r, Dequeue, Stage 0 PlanStage] =
           [(new_job 0 r)\<lparr> job_state := Failed, job_error := Some ErrDurationUnreachable \<rparr>]"
    by (intro planning_failure_is_job_failure) simp_all
  from both show "submit w r [] = (Inr 0, [new_job 0 r])" ..
  from both show "run_events w [Submit r, Dequeue, Stage 0 PlanStage] =
           [(new_job 0 r)\<lparr> job_state := Failed, job_error := Some ErrDurationUnreachable \<rparr>]" ..
qed

theorem example_plan_witness:
  "plan_segments (example_request ''clips5'') (ten_second_clips 5) = Inl ErrDurationUnreachable \<and>
   validate example_world (example_request ''clips5'') = Inr () \<and>
   run_events example_world [Submit (example_request ''clips5''), Dequeue, Stage 0 PlanStage] =
     [(new_job 0 (example_request ''clips5''))\<lparr> job_state := Failed,
         job_error := Some ErrDurationUnreachable \<rparr>] \<and>
   (\<exists>p. plan_segments (example_request ''clips12'') (ten_second_clips 12) = Inr p \<and>
        length p = 10 \<and> plan_total p = 30)"
proof -
  have f: "target_duration_sec (example_request d) = 30" "min_duration_sec (example_request d) = 28"
    "max_duration_sec (example_request d) = 36" "per_segment_sec (example_request d) = 3"
    "max_files (example_request d) = 20" for d
    by (simp_all add: example_request_def)
  have l: "\<forall>c \<in> set (ten_second_clips n). clip_length c = 10" for n
    by (simp add: ten_second_clips_def)
  have d5: "distinct (map clip_ref (ten_second_clips 5))"
    by code_simp
  have d12: "distinct (map clip_ref (ten_second_clips 12))"
    by code_simp
  have n5: "length (ten_second_clips 5) = 5" and n12: "length (ten_second_clips 12) = 12"
    by (simp_all add: ten_second_clips_def)
  have v: "validate example_world (example_request ''clips5'') = Inr ()"
    by (simp add: validate_def sources_ok_def duration_bounds_ok_def example_world_def
          example_request_def n5)
  have c: "clips_of example_world (req_directory (example_request ''clips5'')) = ten_second_clips 5"
    by (simp add: clips_of_def example_world_def example_request_def)
  note a = example_plan [OF f l d5, of "''clips5''" example_world]
  note b = example_plan [OF f l d12, of "''clips12''" example_world]
  from a have few: "int (length (ten_second_clips 5)) <
      \<lceil>min_duration_sec (example_request ''clips5'') / per_segment_sec (example_request ''clips5'')\<rceil>"
    by (simp add: n5)
  from a few v c have "plan_segments (example_request ''clips5'') (ten_second_clips 5) = Inl ErrDurationUnreachable \<and>
     run_events example_world [Submit (example_request ''clips5''), Dequeue, Stage 0 PlanStage] =
     [(new_job 0 (example_request ''clips5''))\<lparr> job_state := Failed,
         job_error := Some ErrDurationUnreachable \<rparr>]"
    by blast
  moreover from b n12 have "\<exists>p. plan_segments (example_request ''clips12'') (ten_second_clips 12) = Inr p \<and>
        length p = 10 \<and> plan_total p = 30"
    by auto
  ultimately show ?thesis using v by blast
qed

end
